theory Spec2Isabelle
  imports Complex_Main
begin

section \<open>Values and errors of the Python program\<close>

text \<open>
  The program is \<^verbatim>\<open>src/lb7.py\<close>: a registry of socket clients
  (\<^verbatim>\<open>CurrencyObserver\<close>), each following one currency, and a background loop
  (\<^verbatim>\<open>currency_updater\<close>) that fetches a rate table and pushes to every client the
  rate of its currency.

  Two kinds of values come from outside and are not validated by the program: the
  document returned by \<^verbatim>\<open>response.json()\<close>, and the currency code that
  \<^verbatim>\<open>handle_select_currency\<close> takes from the client's message with
  \<^verbatim>\<open>data.get('currency_code')\<close>. Both are arbitrary JSON values (\<open>JNull\<close> is
  \<^verbatim>\<open>None\<close>, also what \<^verbatim>\<open>get\<close> returns for a missing key). Python's parser
  gives an \<^verbatim>\<open>int\<close> for an integer literal and a \<^verbatim>\<open>float\<close> otherwise; the
  program never computes with numbers, so a float is carried as a real (not-a-number
  and the infinities are left out). A JSON object is a dict with string keys: an
  association list read with \<open>map_of\<close>.
\<close>

datatype json =
    JNull
  | JBool bool
  | JInt int
  | JFloat real
  | JStr string
  | JArr "json list"
  | JObj "(string \<times> json) list"

text \<open>
  The exceptions that the modelled statements can raise. \<open>RequestException\<close> is what
  \<^verbatim>\<open>requests.get\<close> raises when the request fails, \<open>JSONDecodeError\<close> what
  \<^verbatim>\<open>response.json()\<close> raises on a body that is not JSON, \<open>EmitFailure\<close> an
  exception coming out of \<^verbatim>\<open>socketio.emit\<close>.
\<close>

datatype error =
    KeyError json
  | IndexError
  | TypeError
  | RequestException
  | JSONDecodeError
  | EmitFailure

text \<open>Lists and dicts cannot be hashed, so they cannot be looked up in a dict.\<close>

fun hashable :: "json \<Rightarrow> bool" where
  "hashable (JArr xs) = False"
| "hashable (JObj kvs) = False"
| "hashable v = True"

text \<open>
  Python's \<^verbatim>\<open>==\<close> on these values: \<^verbatim>\<open>bool\<close>, \<^verbatim>\<open>int\<close> and \<^verbatim>\<open>float\<close>
  compare by their numeric value (\<^verbatim>\<open>True == 1\<close>, \<^verbatim>\<open>1 == 1.0\<close>), lists
  element by element, dicts key by key whatever the order, and values of different
  kinds are unequal.
\<close>

fun py_number :: "json \<Rightarrow> real option" where
  "py_number (JBool b) = Some (if b then 1 else 0)"
| "py_number (JInt i) = Some (real_of_int i)"
| "py_number (JFloat r) = Some r"
| "py_number v = None"

fun py_eq :: "json \<Rightarrow> json \<Rightarrow> bool" where
  "py_eq JNull JNull = True"
| "py_eq (JStr a) (JStr b) = (a = b)"
| "py_eq (JArr xs) (JArr ys) = list_all2 py_eq xs ys"
| "py_eq (JObj a) (JObj b) =
     (list_all (\<lambda>(k, x). case map_of b k of None \<Rightarrow> False | Some y \<Rightarrow> py_eq x y) a \<and>
      list_all (\<lambda>(k, y). map_of a k \<noteq> None) b)"
| "py_eq x y =
     (case (py_number x, py_number y) of (Some p, Some q) \<Rightarrow> p = q | _ \<Rightarrow> False)"

text \<open>
  Indexing a sequence: only an \<^verbatim>\<open>int\<close> (a \<^verbatim>\<open>bool\<close> is one) is an index, a
  negative index counts from the end, and an index out of range raises IndexError.
\<close>

fun as_index :: "json \<Rightarrow> int option" where
  "as_index (JInt i) = Some i"
| "as_index (JBool b) = Some (if b then 1 else 0)"
| "as_index v = None"

definition py_index :: "'a list \<Rightarrow> int \<Rightarrow> error + 'a" where
  "py_index xs i =
     (if 0 \<le> i \<and> i < int (length xs) then Inr (xs ! nat i)
      else if i < 0 \<and> - int (length xs) \<le> i then Inr (xs ! nat (int (length xs) + i))
      else Inl IndexError)"

text \<open>
  \<^verbatim>\<open>obj[key]\<close>. A dict raises TypeError for a key that cannot be hashed and KeyError
  for a key it does not have (its keys are strings, so it has no key that is not one). A
  list or a string is indexed; one character of a string is a string. The other values
  are not subscriptable.
\<close>

fun py_getitem :: "json \<Rightarrow> json \<Rightarrow> error + json" where
  "py_getitem (JObj kvs) key =
     (if \<not> hashable key then Inl TypeError
      else case key of
             JStr k \<Rightarrow> (case map_of kvs k of None \<Rightarrow> Inl (KeyError key) | Some v \<Rightarrow> Inr v)
           | _ \<Rightarrow> Inl (KeyError key))"
| "py_getitem (JArr xs) key =
     (case as_index key of None \<Rightarrow> Inl TypeError | Some i \<Rightarrow> py_index xs i)"
| "py_getitem (JStr s) key =
     (case as_index key of
        None \<Rightarrow> Inl TypeError
      | Some i \<Rightarrow> (case py_index s i of Inl err \<Rightarrow> Inl err | Inr c \<Rightarrow> Inr (JStr [c])))"
| "py_getitem v key = Inl TypeError"

text \<open>Python's \<^verbatim>\<open>sub in s\<close> on two strings: \<^verbatim>\<open>sub\<close> occurs in \<^verbatim>\<open>s\<close>.\<close>

fun py_str_contains :: "string \<Rightarrow> string \<Rightarrow> bool" where
  "py_str_contains sub [] = (sub = [])"
| "py_str_contains sub (c # cs) =
     (take (length sub) (c # cs) = sub \<or> py_str_contains sub cs)"

text \<open>
  \<^verbatim>\<open>key in obj\<close>: key membership in a dict (TypeError for a key that cannot be
  hashed), membership by \<^verbatim>\<open>==\<close> in a list, substring test in a string (TypeError
  when \<^verbatim>\<open>key\<close> is not a string), TypeError on a value that is not a container.
\<close>

fun py_contains :: "json \<Rightarrow> json \<Rightarrow> error + bool" where
  "py_contains key (JObj kvs) =
     (if \<not> hashable key then Inl TypeError
      else case key of JStr k \<Rightarrow> Inr (map_of kvs k \<noteq> None) | _ \<Rightarrow> Inr False)"
| "py_contains key (JArr xs) = Inr (list_ex (\<lambda>x. py_eq x key) xs)"
| "py_contains key (JStr s) =
     (case key of JStr sub \<Rightarrow> Inr (py_str_contains sub s) | _ \<Rightarrow> Inl TypeError)"
| "py_contains key v = Inl TypeError"

section \<open>The registry\<close>

text \<open>
  \<^verbatim>\<open>Client\<close> has the single attribute \<^verbatim>\<open>sid\<close>. A value of the dict
  \<^verbatim>\<open>self.observers\<close> is \<^verbatim>\<open>{'observer': observer, 'currency': currency_code}\<close>.
  A session id is the string \<^verbatim>\<open>request.sid\<close>; a currency code is whatever the
  client sent.
\<close>

record client =
  sid :: string

record entry =
  observer :: client
  currency :: json

text \<open>The payload built in \<^verbatim>\<open>notify\<close> (\<^verbatim>\<open>currency_data\<close>).\<close>

record currency_data =
  currency_code :: json
  current_rate :: json
  previous_rate :: json

text \<open>
  What the program does to the outside world, in order:
  \<open>Emit room data\<close> is \<^verbatim>\<open>socketio.emit('update', data, room=room)\<close> having sent,
  \<open>Sleep n\<close> is \<^verbatim>\<open>time.sleep(n)\<close>.
\<close>

datatype effect =
    Emit string currency_data
  | Sleep nat

text \<open>
  The state: the dict \<^verbatim>\<open>currency_observer.observers\<close>, in insertion order as a
  Python dict keeps it (\<^verbatim>\<open>notify\<close> iterates in that order), and the effects so far.
  The \<^verbatim>\<open>print\<close> calls of \<^verbatim>\<open>register\<close> and \<^verbatim>\<open>unregister\<close> are left out.
\<close>

record state =
  observers :: "(string \<times> entry) list"
  trace :: "effect list"

type_synonym 'a result = "(error + 'a) \<times> state"

definition initial :: state where
  "initial = \<lparr>observers = [], trace = []\<rparr>"

text \<open>
  \<^verbatim>\<open>d[k] = v\<close> on a dict: an existing key keeps its position and gets the new value,
  a new key goes to the end.
\<close>

fun dict_setitem :: "'k \<Rightarrow> 'v \<Rightarrow> ('k \<times> 'v) list \<Rightarrow> ('k \<times> 'v) list" where
  "dict_setitem k v [] = [(k, v)]"
| "dict_setitem k v ((k', v') # d) =
     (if k' = k then (k, v) # d else (k', v') # dict_setitem k v d)"

text \<open>\<^verbatim>\<open>del d[k]\<close>: raises KeyError when the key is missing.\<close>

definition dict_delitem :: "string \<Rightarrow> (string \<times> 'v) list \<Rightarrow> error + (string \<times> 'v) list" where
  "dict_delitem k d =
     (if k \<in> set (map fst d) then Inr (filter (\<lambda>kv. fst kv \<noteq> k) d)
      else Inl (KeyError (JStr k)))"

definition register :: "client \<Rightarrow> json \<Rightarrow> state \<Rightarrow> unit result" where
  "register obs code s =
     (Inr (),
      s\<lparr>observers :=
          dict_setitem (sid obs) \<lparr>observer = obs, currency = code\<rparr> (observers s)\<rparr>)"

definition unregister :: "client \<Rightarrow> state \<Rightarrow> unit result" where
  "unregister obs s =
     (if sid obs \<in> set (map fst (observers s))
      then (case dict_delitem (sid obs) (observers s) of
              Inl err \<Rightarrow> (Inl err, s)
            | Inr d \<Rightarrow> (Inr (), s\<lparr>observers := d\<rparr>))
      else (Inr (), s))"

section \<open>Dispatch\<close>

text \<open>
  \<^verbatim>\<open>Client.update\<close>: one call of \<^verbatim>\<open>socketio.emit\<close>. Whether that call raises is
  decided outside the program; \<open>raises room data\<close> says so. A call that raises has sent
  nothing.
\<close>

type_synonym emit_env = "string \<Rightarrow> currency_data \<Rightarrow> bool"

definition update :: "emit_env \<Rightarrow> client \<Rightarrow> currency_data \<Rightarrow> state \<Rightarrow> unit result" where
  "update raises self d s =
     (if raises (sid self) d then (Inl EmitFailure, s)
      else (Inr (), s\<lparr>trace := trace s @ [Emit (sid self) d]\<rparr>))"

text \<open>
  Lines 60 to 67 of \<^verbatim>\<open>notify\<close>, the part of the loop body without effects:
  \<open>Inr None\<close> when the test \<^verbatim>\<open>currency_code in data['Valute']\<close> is false,
  \<open>Inr (Some d)\<close> with the dict \<^verbatim>\<open>currency_data\<close> when it is true, \<open>Inl\<close> the
  exception of the first subscript or test that raises.
\<close>

definition currency_data_for :: "json \<Rightarrow> json \<Rightarrow> error + currency_data option" where
  "currency_data_for data code =
     (case py_getitem data (JStr ''Valute'') of
        Inl err \<Rightarrow> Inl err
      | Inr valute \<Rightarrow>
          (case py_contains code valute of
             Inl err \<Rightarrow> Inl err
           | Inr present \<Rightarrow>
               if \<not> present then Inr None
               else
                 (case py_getitem valute code of
                    Inl err \<Rightarrow> Inl err
                  | Inr currency_info \<Rightarrow>
                      (case py_getitem currency_info (JStr ''Value'') of
                         Inl err \<Rightarrow> Inl err
                       | Inr v \<Rightarrow>
                           (case py_getitem currency_info (JStr ''Previous'') of
                              Inl err \<Rightarrow> Inl err
                            | Inr p \<Rightarrow>
                                Inr (Some \<lparr>currency_code = code,
                                           current_rate = v,
                                           previous_rate = p\<rparr>))))))"

text \<open>
  The \<^verbatim>\<open>for\<close> loop of \<^verbatim>\<open>notify\<close> over the values of the dict. An exception
  leaves the loop at once, with the state as it is then.
\<close>

fun notify_loop :: "emit_env \<Rightarrow> json \<Rightarrow> entry list \<Rightarrow> state \<Rightarrow> unit result" where
  "notify_loop raises data [] s = (Inr (), s)"
| "notify_loop raises data (e # es) s =
     (case currency_data_for data (currency e) of
        Inl err \<Rightarrow> (Inl err, s)
      | Inr None \<Rightarrow> notify_loop raises data es s
      | Inr (Some d) \<Rightarrow>
          (case update raises (observer e) d s of
             (Inl err, s') \<Rightarrow> (Inl err, s')
           | (Inr u, s') \<Rightarrow> notify_loop raises data es s'))"

definition notify :: "emit_env \<Rightarrow> json \<Rightarrow> state \<Rightarrow> unit result" where
  "notify raises data s = notify_loop raises data (map snd (observers s)) s"

section \<open>Fetching and the poll loop\<close>

text \<open>
  \<^verbatim>\<open>requests.get\<close> either raises or returns a response; \<^verbatim>\<open>response.json()\<close>
  raises when the body is not JSON (\<open>body_json = None\<close>). The status code is never read.
\<close>

record response =
  status_code :: nat
  body_json :: "json option"

definition get_currency_rates :: "error + response \<Rightarrow> error + json" where
  "get_currency_rates net =
     (case net of
        Inl err \<Rightarrow> Inl err
      | Inr resp \<Rightarrow>
          (case body_json resp of None \<Rightarrow> Inl JSONDecodeError | Some j \<Rightarrow> Inr j))"

text \<open>What the outside world does in one iteration of the loop.\<close>

record cycle_env =
  http :: "error + response"
  emit_raises :: emit_env

definition sleep :: "nat \<Rightarrow> state \<Rightarrow> unit result" where
  "sleep n s = (Inr (), s\<lparr>trace := trace s @ [Sleep n]\<rparr>)"

text \<open>The body of \<^verbatim>\<open>while True\<close> in \<^verbatim>\<open>currency_updater\<close>.\<close>

definition updater_body :: "cycle_env \<Rightarrow> state \<Rightarrow> unit result" where
  "updater_body env s =
     (case get_currency_rates (http env) of
        Inl err \<Rightarrow> (Inl err, s)
      | Inr data \<Rightarrow>
          (case notify (emit_raises env) data s of
             (Inl err, s') \<Rightarrow> (Inl err, s')
           | (Inr u, s') \<Rightarrow> sleep 10 s'))"

text \<open>
  The loop never returns: it runs until an exception leaves it. The list holds what the
  outside world does in the iterations observed; \<open>Died err\<close> is the exception that ended
  the thread, \<open>Looping\<close> says that the loop is still running after all of them.
\<close>

datatype loop_status = Looping | Died error

fun currency_updater :: "cycle_env list \<Rightarrow> state \<Rightarrow> loop_status \<times> state" where
  "currency_updater [] s = (Looping, s)"
| "currency_updater (env # envs) s =
     (case updater_body env s of
        (Inl err, s') \<Rightarrow> (Died err, s')
      | (Inr u, s') \<Rightarrow> currency_updater envs s')"

text \<open>
  The socket handlers \<^verbatim>\<open>handle_select_currency\<close> and \<^verbatim>\<open>handle_disconnect\<close> make
  one registry call each; a sequence of such calls stops at the first that raises.
\<close>

datatype call = Register client json | Unregister client

fun call_sid :: "call \<Rightarrow> string" where
  "call_sid (Register obs code) = sid obs"
| "call_sid (Unregister obs) = sid obs"

fun perform :: "call \<Rightarrow> state \<Rightarrow> unit result" where
  "perform (Register obs code) s = register obs code s"
| "perform (Unregister obs) s = unregister obs s"

fun perform_all :: "call list \<Rightarrow> state \<Rightarrow> unit result" where
  "perform_all [] s = (Inr (), s)"
| "perform_all (c # cs) s =
     (case perform c s of
        (Inl err, s') \<Rightarrow> (Inl err, s')
      | (Inr u, s') \<Rightarrow> perform_all cs s')"

section \<open>Notions used by the specification\<close>

text \<open>
  A registry state as the dict has it: every key occurs once, and the client stored
  under a key has that key as its \<^verbatim>\<open>sid\<close>. The empty dict is such a state and
  \<^verbatim>\<open>register\<close> and \<^verbatim>\<open>unregister\<close> keep it (lemma \<open>reachable_sound\<close>).
\<close>

definition sound_registry :: "(string \<times> entry) list \<Rightarrow> bool" where
  "sound_registry d = (distinct (map fst d) \<and> list_all (\<lambda>kv. sid (observer (snd kv)) = fst kv) d)"

text \<open>
  The net effect of a sequence of calls on one session, in the words of the
  specification: the currency of the last call for that session when that call is a
  registration, nothing when it is an unregistration or when there is no such call.
\<close>

definition net_effect :: "call list \<Rightarrow> string \<Rightarrow> json option" where
  "net_effect calls k =
     (case rev (filter (\<lambda>c. call_sid c = k) calls) of
        [] \<Rightarrow> None
      | Register obs code # earlier \<Rightarrow> Some code
      | Unregister obs # earlier \<Rightarrow> None)"

text \<open>
  The payloads sent to one room, and the arguments of the sleeps, in a list of effects.
\<close>

fun emits_to :: "string \<Rightarrow> effect list \<Rightarrow> effect list" where
  "emits_to k [] = []"
| "emits_to k (Emit room d # evs) = (if room = k then Emit room d # emits_to k evs else emits_to k evs)"
| "emits_to k (Sleep n # evs) = emits_to k evs"

fun naps :: "effect list \<Rightarrow> nat list" where
  "naps [] = []"
| "naps (Sleep n # evs) = n # naps evs"
| "naps (Emit room d # evs) = naps evs"




text \<open>
  The payloads due to the given entries, in order: one emission for each entry whose
  lookup in the document gives a payload, to the session of that entry.
\<close>

fun payloads :: "json \<Rightarrow> entry list \<Rightarrow> effect list" where
  "payloads data [] = []"
| "payloads data (e # es) =
     (case currency_data_for data (currency e) of
        Inr (Some d) \<Rightarrow> Emit (sid (observer e)) d # payloads data es
      | _ \<Rightarrow> payloads data es)"

text \<open>
  Concrete inputs: the rate table and the three subscribers of the example in the
  specification; three subscribers of one currency; a registry whose first client sent a
  list as its currency code; a rate table whose EUR entry has no \<^verbatim>\<open>Value\<close>; and
  what the outside world does in a cycle (the source answers, is unreachable, answers
  with status 500, answers with a body that is not JSON or with the table of the wrong
  shape, the emission to one session raises).
\<close>

definition usd_rates :: json where
  "usd_rates =
     JObj [(''Valute'',
            JObj [(''USD'', JObj [(''Value'', JFloat 90), (''Previous'', JFloat 89.5)]),
                  (''EUR'', JObj [(''Value'', JFloat 98), (''Previous'', JFloat 97.25)])])]"

definition usd_payload :: currency_data where
  "usd_payload = \<lparr>currency_code = JStr ''USD'', current_rate = JFloat 90, previous_rate = JFloat 89.5\<rparr>"

definition subscriber :: "string \<Rightarrow> string \<Rightarrow> string \<times> entry" where
  "subscriber k code = (k, \<lparr>observer = \<lparr>sid = k\<rparr>, currency = JStr code\<rparr>)"

definition three_clients :: state where
  "three_clients =
     \<lparr>observers = [subscriber ''s1'' ''USD'', subscriber ''s2'' ''GBP'', subscriber ''s3'' ''USD''],
      trace = []\<rparr>"

definition usd_clients :: state where
  "usd_clients =
     \<lparr>observers = [subscriber ''s1'' ''USD'', subscriber ''s2'' ''USD'', subscriber ''s3'' ''USD''],
      trace = []\<rparr>"

definition list_code_clients :: state where
  "list_code_clients =
     \<lparr>observers = [(''s1'', \<lparr>observer = \<lparr>sid = ''s1''\<rparr>, currency = JArr []\<rparr>),
                   subscriber ''s2'' ''USD''],
      trace = []\<rparr>"

definition usd_eur_clients :: state where
  "usd_eur_clients =
     \<lparr>observers = [subscriber ''s1'' ''USD'', subscriber ''s2'' ''EUR''], trace = []\<rparr>"

definition eur_without_value :: json where
  "eur_without_value =
     JObj [(''Valute'',
            JObj [(''USD'', JObj [(''Value'', JFloat 90), (''Previous'', JFloat 89.5)]),
                  (''EUR'', JObj [(''Previous'', JFloat 97.25)])])]"

definition always_sends :: emit_env where
  "always_sends room d = False"

definition s2_closed :: emit_env where
  "s2_closed room d = (room = ''s2'')"

definition s1_closed :: emit_env where
  "s1_closed room d = (room = ''s1'')"

definition env_up :: cycle_env where
  "env_up = \<lparr>http = Inr \<lparr>status_code = 200, body_json = Some usd_rates\<rparr>,
            emit_raises = always_sends\<rparr>"

definition env_down :: cycle_env where
  "env_down = \<lparr>http = Inl RequestException, emit_raises = always_sends\<rparr>"

definition env_500 :: cycle_env where
  "env_500 = \<lparr>http = Inr \<lparr>status_code = 500, body_json = Some usd_rates\<rparr>,
             emit_raises = always_sends\<rparr>"

definition env_not_json :: cycle_env where
  "env_not_json = \<lparr>http = Inr \<lparr>status_code = 200, body_json = None\<rparr>,
                  emit_raises = always_sends\<rparr>"

definition env_wrong_shape :: cycle_env where
  "env_wrong_shape = \<lparr>http = Inr \<lparr>status_code = 200, body_json = Some eur_without_value\<rparr>,
                     emit_raises = always_sends\<rparr>"

definition env_s2_closed :: cycle_env where
  "env_s2_closed = \<lparr>http = Inr \<lparr>status_code = 200, body_json = Some usd_rates\<rparr>,
                   emit_raises = s2_closed\<rparr>"

lemmas example_defs =
  usd_rates_def usd_payload_def subscriber_def three_clients_def usd_clients_def
  list_code_clients_def usd_eur_clients_def eur_without_value_def
  always_sends_def s2_closed_def s1_closed_def env_up_def env_down_def env_500_def
  env_not_json_def env_wrong_shape_def env_s2_closed_def

lemmas run_defs = notify_def currency_data_for_def update_def

section \<open>Properties of the registry\<close>

lemma map_of_dict_setitem: "map_of (dict_setitem k v d) = (map_of d)(k \<mapsto> v)"
  by (induction d) auto

lemma keys_dict_setitem: "set (map fst (dict_setitem k v d)) = insert k (set (map fst d))"
  by (induction d) (force split: if_splits)+

lemma distinct_dict_setitem:
  "distinct (map fst d) \<Longrightarrow> distinct (map fst (dict_setitem k v d))"
  by (induction d) (auto simp: keys_dict_setitem simp flip: set_map)

lemma filter_absent: "k \<notin> set (map fst d) \<Longrightarrow> filter (\<lambda>kv. fst kv = k) d = []"
  by (induction d) auto

lemma filter_dict_setitem:
  "distinct (map fst d) \<Longrightarrow> filter (\<lambda>kv. fst kv = k) (dict_setitem k v d) = [(k, v)]"
  by (induction d) (auto simp: filter_absent)

lemma set_dict_setitem:
  "set (dict_setitem k v d) \<subseteq> insert (k, v) (set d)"
  by (induction d) (auto split: if_splits)

lemma dict_setitem_twice: "dict_setitem k v2 (dict_setitem k v1 d) = dict_setitem k v2 d"
  by (induction d) auto

lemma filter_keep_absent: "k \<notin> set (map fst d) \<Longrightarrow> filter (\<lambda>kv. fst kv \<noteq> k) d = d"
  by (induction d) auto

lemma distinct_filter_keys: "distinct (map fst d) \<Longrightarrow> distinct (map fst (filter P d))"
  by (induction d) auto

lemma map_of_filter_neq: "map_of (filter (\<lambda>kv. fst kv \<noteq> k) d) = (map_of d)(k := None)"
  by (induction d) auto

lemma sound_register: "sound_registry (observers s) \<Longrightarrow> sound_registry (observers (snd (register obs code s)))"
  unfolding sound_registry_def register_def
  using set_dict_setitem [of "sid obs" "\<lparr>observer = obs, currency = code\<rparr>" "observers s"]
  by (auto simp: distinct_dict_setitem list_all_iff)

text \<open>
  The test before \<^verbatim>\<open>del\<close> makes the KeyError branch unreachable: \<^verbatim>\<open>unregister\<close>
  never raises.
\<close>

lemma unregister_eq:
  "unregister obs s = (Inr (), s\<lparr>observers := filter (\<lambda>kv. fst kv \<noteq> sid obs) (observers s)\<rparr>)"
  by (simp add: unregister_def dict_delitem_def filter_keep_absent)

lemma sound_unregister: "sound_registry (observers s) \<Longrightarrow> sound_registry (observers (snd (unregister obs s)))"
  by (auto simp: unregister_eq sound_registry_def distinct_filter_keys list_all_iff)

lemma perform_ok: "fst (perform c s) = Inr ()"
  by (cases c) (simp_all add: register_def unregister_eq)

lemma perform_trace: "trace (snd (perform c s)) = trace s"
  by (cases c) (simp_all add: register_def unregister_eq)

lemma sound_perform: "sound_registry (observers s) \<Longrightarrow> sound_registry (observers (snd (perform c s)))"
  by (cases c) (simp_all add: sound_register sound_unregister)

lemma perform_all_snoc:
  "perform_all (cs @ [c]) s =
     (case perform_all cs s of (Inl err, s') \<Rightarrow> (Inl err, s') | (Inr u, s') \<Rightarrow> perform c s')"
proof (induction cs arbitrary: s)
  case Nil
  show ?case using perform_ok [of c s] by (cases "perform c s") (auto split: sum.splits)
next
  case (Cons a cs)
  show ?case using Cons.IH by (cases "perform a s") (auto split: sum.splits)
qed

lemma net_effect_Nil: "net_effect [] k = None"
  by (simp add: net_effect_def)

lemma net_effect_snoc:
  "net_effect (cs @ [c]) k =
     (if call_sid c = k then (case c of Register obs code \<Rightarrow> Some code | Unregister obs \<Rightarrow> None)
      else net_effect cs k)"
  by (cases c) (simp_all add: net_effect_def)

lemma perform_lookup:
  "map_option currency (map_of (observers (snd (perform c s))) k) =
     (if call_sid c = k then (case c of Register obs code \<Rightarrow> Some code | Unregister obs \<Rightarrow> None)
      else map_option currency (map_of (observers s) k))"
  by (cases c) (auto simp: register_def unregister_eq map_of_dict_setitem map_of_filter_neq)

lemma perform_distinct:
  "distinct (map fst (observers s)) \<Longrightarrow> distinct (map fst (observers (snd (perform c s))))"
  by (cases c) (auto simp: register_def unregister_eq distinct_dict_setitem distinct_filter_keys)

lemma perform_all_net:
  "fst (perform_all calls initial) = Inr () \<and>
   distinct (map fst (observers (snd (perform_all calls initial)))) \<and>
   trace (snd (perform_all calls initial)) = [] \<and>
   (\<forall>k. map_option currency (map_of (observers (snd (perform_all calls initial))) k) = net_effect calls k)"
proof (induction calls rule: rev_induct)
  case Nil
  show ?case by (simp add: initial_def net_effect_Nil)
next
  case (snoc c cs)
  obtain s' where s': "perform_all cs initial = (Inr (), s')"
    using snoc by (cases "perform_all cs initial") auto
  have step: "perform_all (cs @ [c]) initial = perform c s'"
    by (simp add: perform_all_snoc s')
  show ?case
    using snoc perform_ok [of c s'] perform_distinct [of s' c] perform_lookup [of c s'] perform_trace [of c s']
    by (simp add: step s' net_effect_snoc)
qed

lemma reachable_sound: "sound_registry (observers (snd (perform_all calls initial)))"
proof (induction calls rule: rev_induct)
  case Nil
  show ?case by (simp add: initial_def sound_registry_def)
next
  case (snoc c cs)
  obtain s' where s': "perform_all cs initial = (Inr (), s')"
    using perform_all_net [of cs] by (cases "perform_all cs initial") auto
  show ?case
    using snoc sound_perform [of s' c] by (simp add: perform_all_snoc s')
qed

lemma pairs_of_distinct:
  "distinct (map fst d) \<Longrightarrow>
   set (map (\<lambda>kv. (fst kv, f (snd kv))) d) = {(k, c). map_option f (map_of d k) = Some c}"
proof (induction d)
  case Nil
  show ?case by simp
next
  case (Cons a d)
  have absent: "map_of d (fst a) = None"
    using Cons.prems by (simp add: map_of_eq_None_iff)
  have "set (map (\<lambda>kv. (fst kv, f (snd kv))) (a # d)) =
        insert (fst a, f (snd a)) {(k, c). map_option f (map_of d k) = Some c}"
    using Cons by simp
  also have "\<dots> = {(k, c). map_option f (map_of (a # d) k) = Some c}"
    using absent by (cases a) (auto split: if_splits)
  finally show ?case .
qed

text \<open>
  Claim C4. In every registry state, registering a session with currency \<open>c1\<close> and then
  again with currency \<open>c2\<close> raises nothing and leaves exactly one entry for that session;
  its currency is \<open>c2\<close>. The entries of the other sessions and the effects are as before.
\<close>

theorem register_twice:
  assumes "distinct (map fst (observers s))" and "sid o2 = sid o1"
  shows "\<exists>s'. perform_all [Register o1 c1, Register o2 c2] s = (Inr (), s') \<and>
              filter (\<lambda>kv. fst kv = sid o1) (observers s') =
                [(sid o1, \<lparr>observer = o2, currency = c2\<rparr>)] \<and>
              (\<forall>k. k \<noteq> sid o1 \<longrightarrow> map_of (observers s') k = map_of (observers s) k) \<and>
              trace s' = trace s"
  using assms
  by (simp add: register_def dict_setitem_twice filter_dict_setitem map_of_dict_setitem)

theorem register_twice_witness:
  "distinct (map fst (observers three_clients)) \<and>
   perform_all [Register \<lparr>sid = ''s2''\<rparr> (JStr ''EUR''), Register \<lparr>sid = ''s2''\<rparr> (JStr ''USD'')] three_clients =
     (Inr (), usd_clients)"
proof -
  have d: "distinct (map fst (observers three_clients))"
    by (simp add: example_defs)
  have run: "perform_all [Register \<lparr>sid = ''s2''\<rparr> (JStr ''EUR''), Register \<lparr>sid = ''s2''\<rparr> (JStr ''USD'')] three_clients =
     (Inr (), usd_clients)"
    using register_twice [OF d, of "\<lparr>sid = ''s2''\<rparr>" "\<lparr>sid = ''s2''\<rparr>" "JStr ''EUR''" "JStr ''USD''"]
    by (simp add: example_defs register_def)
  show ?thesis using d run by simp
qed

text \<open>
  Claim C5. Starting from the empty registry, every finite sequence of
  \<^verbatim>\<open>register\<close> and \<^verbatim>\<open>unregister\<close> calls runs without raising, and the pairs
  (session id, currency) of the registry afterwards are exactly the net effect of the
  sequence, each session id occurring once.
\<close>

theorem registry_net_effect:
  "\<exists>s'. perform_all calls initial = (Inr (), s') \<and>
        distinct (map fst (observers s')) \<and>
        set (map (\<lambda>kv. (fst kv, currency (snd kv))) (observers s')) =
          {(k, c). net_effect calls k = Some c}"
proof -
  obtain r s' where run: "perform_all calls initial = (r, s')"
    by (cases "perform_all calls initial") auto
  have r: "r = Inr ()" and d: "distinct (map fst (observers s'))"
    and look: "\<forall>k. map_option currency (map_of (observers s') k) = net_effect calls k"
    using perform_all_net [of calls] run by simp_all
  have "set (map (\<lambda>kv. (fst kv, currency (snd kv))) (observers s')) =
          {(k, c). net_effect calls k = Some c}"
    using pairs_of_distinct [OF d, of currency] look by simp
  then show ?thesis using run r d by simp
qed

theorem registry_net_effect_witness:
  "perform_all [Register \<lparr>sid = ''a''\<rparr> (JStr ''USD''), Register \<lparr>sid = ''b''\<rparr> (JStr ''EUR''),
                Register \<lparr>sid = ''a''\<rparr> (JStr ''GBP''), Unregister \<lparr>sid = ''b''\<rparr>] initial =
     (Inr (), \<lparr>observers = [subscriber ''a'' ''GBP''], trace = []\<rparr>) \<and>
   {(k, c). net_effect [Register \<lparr>sid = ''a''\<rparr> (JStr ''USD''), Register \<lparr>sid = ''b''\<rparr> (JStr ''EUR''),
                Register \<lparr>sid = ''a''\<rparr> (JStr ''GBP''), Unregister \<lparr>sid = ''b''\<rparr>] k = Some c} =
     {(''a'', JStr ''GBP'')}"
  using registry_net_effect [of "[Register \<lparr>sid = ''a''\<rparr> (JStr ''USD''), Register \<lparr>sid = ''b''\<rparr> (JStr ''EUR''),
                Register \<lparr>sid = ''a''\<rparr> (JStr ''GBP''), Unregister \<lparr>sid = ''b''\<rparr>]"]
  by (simp add: initial_def register_def unregister_def dict_delitem_def subscriber_def)

text \<open>
  Claim C6. Unregistering a session that is not in the registry raises nothing and
  returns the state unchanged.
\<close>

theorem unregister_absent:
  assumes "sid obs \<notin> fst ` set (observers s)"
  shows "unregister obs s = (Inr (), s)"
  using assms by (simp add: unregister_def)

theorem unregister_absent_witness:
  "sid \<lparr>sid = ''s9''\<rparr> \<notin> fst ` set (observers three_clients) \<and>
   unregister \<lparr>sid = ''s9''\<rparr> three_clients = (Inr (), three_clients)"
proof -
  have a: "sid \<lparr>sid = ''s9''\<rparr> \<notin> fst ` set (observers three_clients)"
    by (simp add: example_defs)
  show ?thesis using a unregister_absent [OF a] by simp
qed

section \<open>Properties of one dispatch\<close>

lemma emits_to_append: "emits_to k (xs @ ys) = emits_to k xs @ emits_to k ys"
  by (induction k xs rule: emits_to.induct) auto

lemma naps_append: "naps (xs @ ys) = naps xs @ naps ys"
  by (induction xs rule: naps.induct) auto

lemma naps_no_sleep: "\<forall>n. Sleep n \<notin> set evs \<Longrightarrow> naps evs = []"
  by (induction evs rule: naps.induct) auto

text \<open>
  What every run of the loop does, whether or not it ends in an exception: it only adds
  emissions to the trace, at most one for each entry it was given.
\<close>

lemma notify_loop_frame:
  "\<exists>new. snd (notify_loop raises data es s) = s\<lparr>trace := trace s @ new\<rparr> \<and>
         (\<forall>k. length (emits_to k new) \<le> length (filter (\<lambda>e. sid (observer e) = k) es)) \<and>
         (\<forall>n. Sleep n \<notin> set new)"
proof (induction es arbitrary: s)
  case Nil
  show ?case by (rule exI [of _ "[]"]) simp
next
  case (Cons e es)
  show ?case
  proof (cases "currency_data_for data (currency e)")
    case (Inl err)
    then show ?thesis by (intro exI [of _ "[]"]) simp
  next
    case (Inr r)
    show ?thesis
    proof (cases r)
      case None
      obtain new where n: "snd (notify_loop raises data es s) = s\<lparr>trace := trace s @ new\<rparr>"
          "\<forall>k. length (emits_to k new) \<le> length (filter (\<lambda>e. sid (observer e) = k) es)"
          "\<forall>n. Sleep n \<notin> set new"
        using Cons.IH [of s] by blast
      have "snd (notify_loop raises data (e # es) s) = s\<lparr>trace := trace s @ new\<rparr>"
        using Inr None n(1) by simp
      moreover have "\<forall>k. length (emits_to k new) \<le> length (filter (\<lambda>e. sid (observer e) = k) (e # es))"
        using n(2) by (simp add: le_SucI)
      ultimately show ?thesis using n(3) by blast
    next
      case (Some d)
      show ?thesis
      proof (cases "raises (sid (observer e)) d")
        case True
        then have "snd (notify_loop raises data (e # es) s) = s\<lparr>trace := trace s @ []\<rparr>"
          using Inr Some by (simp add: update_def)
        then show ?thesis by fastforce
      next
        case False
        let ?s1 = "s\<lparr>trace := trace s @ [Emit (sid (observer e)) d]\<rparr>"
        obtain new where n: "snd (notify_loop raises data es ?s1) = ?s1\<lparr>trace := trace ?s1 @ new\<rparr>"
            "\<forall>k. length (emits_to k new) \<le> length (filter (\<lambda>e. sid (observer e) = k) es)"
            "\<forall>n. Sleep n \<notin> set new"
          using Cons.IH [of ?s1] by blast
        have "snd (notify_loop raises data (e # es) s) =
                s\<lparr>trace := trace s @ (Emit (sid (observer e)) d # new)\<rparr>"
          using Inr Some False n(1) by (simp add: update_def)
        moreover have "\<forall>k. length (emits_to k (Emit (sid (observer e)) d # new))
                        \<le> length (filter (\<lambda>e. sid (observer e) = k) (e # es))"
          using n(2) by (simp add: le_SucI)
        moreover have "\<forall>n. Sleep n \<notin> set (Emit (sid (observer e)) d # new)"
          using n(3) by simp
        ultimately show ?thesis by blast
      qed
    qed
  qed
qed

lemma notify_frame:
  "\<exists>new. snd (notify raises data s) = s\<lparr>trace := trace s @ new\<rparr> \<and>
         (\<forall>k. length (emits_to k new)
                \<le> length (filter (\<lambda>e. sid (observer e) = k) (map snd (observers s)))) \<and>
         (\<forall>n. Sleep n \<notin> set new)"
  unfolding notify_def by (rule notify_loop_frame)

lemma notify_loop_append:
  "notify_loop raises data (xs @ ys) s =
     (case notify_loop raises data xs s of
        (Inl err, s') \<Rightarrow> (Inl err, s')
      | (Inr u, s') \<Rightarrow> notify_loop raises data ys s')"
proof (induction xs arbitrary: s)
  case Nil
  show ?case by simp
next
  case (Cons e xs)
  show ?case
    using Cons.IH
    by (auto simp: update_def split: sum.splits option.splits prod.splits)
qed

lemma notify_loop_observers_irrelevant:
  "notify_loop raises data es (s\<lparr>observers := d\<rparr>) =
     (fst (notify_loop raises data es s), (snd (notify_loop raises data es s))\<lparr>observers := d\<rparr>)"
proof (induction es arbitrary: s)
  case Nil
  show ?case by simp
next
  case (Cons e es)
  show ?case
  proof (cases "currency_data_for data (currency e)")
    case (Inl err)
    then show ?thesis by simp
  next
    case (Inr r)
    show ?thesis
    proof (cases r)
      case None
      then show ?thesis using Inr Cons.IH [of s] by simp
    next
      case (Some p)
      have swap: "s\<lparr>observers := d, trace := trace s @ [Emit (sid (observer e)) p]\<rparr> =
                  s\<lparr>trace := trace s @ [Emit (sid (observer e)) p], observers := d\<rparr>"
        by (cases s) simp
      show ?thesis
        using Inr Some Cons.IH [of "s\<lparr>trace := trace s @ [Emit (sid (observer e)) p]\<rparr>"]
        by (simp add: update_def swap)
    qed
  qed
qed

lemma sound_registry_at_most_one:
  "sound_registry d \<Longrightarrow> length (filter (\<lambda>e. sid (observer e) = k) (map snd d)) \<le> 1"
proof (induction d)
  case Nil
  show ?case by simp
next
  case (Cons a d)
  have tl: "sound_registry d" using Cons.prems by (simp add: sound_registry_def)
  have "fst a \<notin> fst ` set d"
    using Cons.prems by (simp add: sound_registry_def)
  then have keys: "\<forall>kv\<in>set d. fst kv \<noteq> fst a"
    by (metis imageI)
  have sids: "\<forall>kv\<in>set d. sid (observer (snd kv)) = fst kv"
    using Cons.prems by (simp add: sound_registry_def list_all_iff)
  have none: "fst a = k \<Longrightarrow> filter (\<lambda>e. sid (observer e) = k) (map snd d) = []"
    using keys sids by (auto simp: filter_empty_conv)
  show ?case
    using Cons.IH [OF tl] none Cons.prems by (auto simp: sound_registry_def)
qed




text \<open>A pass that ends without an exception has sent exactly the payloads that were due.\<close>

lemma notify_loop_ok:
  "notify_loop raises data es s = (Inr u, s') \<Longrightarrow> s' = s\<lparr>trace := trace s @ payloads data es\<rparr>"
proof (induction es arbitrary: s)
  case Nil
  then show ?case by simp
next
  case (Cons e es)
  show ?case
  proof (cases "currency_data_for data (currency e)")
    case (Inl err)
    then show ?thesis using Cons.prems by simp
  next
    case (Inr r)
    show ?thesis
    proof (cases r)
      case None
      then show ?thesis using Inr Cons.prems Cons.IH [of s] by simp
    next
      case (Some d)
      show ?thesis
      proof (cases "raises (sid (observer e)) d")
        case True
        then show ?thesis using Inr Some Cons.prems by (simp add: update_def)
      next
        case False
        let ?s1 = "s\<lparr>trace := trace s @ [Emit (sid (observer e)) d]\<rparr>"
        have "notify_loop raises data es ?s1 = (Inr u, s')"
          using Inr Some False Cons.prems by (simp add: update_def)
        then have "s' = ?s1\<lparr>trace := trace ?s1 @ payloads data es\<rparr>"
          by (rule Cons.IH)
        then show ?thesis using Inr Some by simp
      qed
    qed
  qed
qed


text \<open>
  A pass stops at the first entry whose lookup or emission raises; what was sent before
  stays sent.
\<close>

lemma notify_loop_stops:
  assumes "fst (notify_loop raises data earlier s) = Inr ()"
    and "currency_data_for data (currency e) = Inl err \<or>
         (\<exists>d. currency_data_for data (currency e) = Inr (Some d) \<and>
              raises (sid (observer e)) d \<and> err = EmitFailure)"
  shows "notify_loop raises data (earlier @ e # later) s =
           (Inl err, s\<lparr>trace := trace s @ payloads data earlier\<rparr>)"
proof -
  obtain s1 where run: "notify_loop raises data earlier s = (Inr (), s1)"
    using assms(1) by (cases "notify_loop raises data earlier s") auto
  have s1: "s1 = s\<lparr>trace := trace s @ payloads data earlier\<rparr>"
    using run by (rule notify_loop_ok)
  have "notify_loop raises data (e # later) s1 = (Inl err, s1)"
    using assms(2) by (auto simp: update_def)
  then show ?thesis by (simp add: notify_loop_append run s1)
qed

lemma notify_stops:
  assumes "observers s = earlier @ (k, e) # later"
    and "fst (notify raises data (s\<lparr>observers := earlier\<rparr>)) = Inr ()"
    and "currency_data_for data (currency e) = Inl err \<or>
         (\<exists>d. currency_data_for data (currency e) = Inr (Some d) \<and>
              raises (sid (observer e)) d \<and> err = EmitFailure)"
  shows "notify raises data s =
           (Inl err, s\<lparr>trace := trace s @ payloads data (map snd earlier)\<rparr>)"
proof -
  have pass: "fst (notify_loop raises data (map snd earlier) s) = Inr ()"
    using assms(2) by (simp add: notify_def notify_loop_observers_irrelevant)
  have "notify_loop raises data (map snd earlier @ e # map snd later) s =
          (Inl err, s\<lparr>trace := trace s @ payloads data (map snd earlier)\<rparr>)"
    using pass assms(3) by (rule notify_loop_stops)
  then show ?thesis
    by (simp add: notify_def assms(1))
qed

lemma emits_to_payloads_absent:
  "\<forall>e\<in>set es. sid (observer e) \<noteq> k \<Longrightarrow> emits_to k (payloads data es) = []"
  by (induction es) (auto split: sum.splits option.splits)

lemma emits_to_payloads:
  assumes "sound_registry d" and "(k, e) \<in> set d"
  shows "emits_to k (payloads data (map snd d)) =
           (case currency_data_for data (currency e) of Inr (Some p) \<Rightarrow> [Emit k p] | _ \<Rightarrow> [])"
  using assms
proof (induction d)
  case Nil
  then show ?case by simp
next
  case (Cons a d)
  have tl: "sound_registry d" using Cons.prems(1) by (simp add: sound_registry_def)
  have own: "sid (observer (snd a)) = fst a"
    using Cons.prems(1) by (simp add: sound_registry_def)
  have "fst a \<notin> fst ` set d"
    using Cons.prems(1) by (simp add: sound_registry_def)
  then have keys: "\<forall>kv\<in>set d. fst kv \<noteq> fst a"
    by (metis imageI)
  have sids: "\<forall>kv\<in>set d. sid (observer (snd kv)) = fst kv"
    using Cons.prems(1) by (simp add: sound_registry_def list_all_iff)
  show ?case
  proof (cases "(k, e) = a")
    case True
    have "\<forall>e'\<in>set (map snd d). sid (observer e') \<noteq> k"
      using keys sids True by auto
    then have "emits_to k (payloads data (map snd d)) = []"
      by (rule emits_to_payloads_absent)
    then show ?thesis
      using True own by (auto split: sum.splits option.splits)
  next
    case False
    then have mem: "(k, e) \<in> set d" using Cons.prems(2) by simp
    then have "fst a \<noteq> k" using keys by force
    then show ?thesis
      using Cons.IH [OF tl mem] own by (auto split: sum.splits option.splits)
  qed
qed

lemma sound_registry_prefix: "sound_registry (xs @ ys) \<Longrightarrow> sound_registry xs"
  by (simp add: sound_registry_def)




text \<open>
  The example of the specification, run: \<open>s1\<close> and \<open>s3\<close> follow USD, \<open>s2\<close> follows
  GBP, which the table does not have.
\<close>

lemma notify_example:
  "notify always_sends usd_rates three_clients =
     (Inr (), three_clients\<lparr>trace := [Emit ''s1'' usd_payload, Emit ''s3'' usd_payload]\<rparr>)"
  by (simp add: example_defs run_defs)

text \<open>
  Claim C3, as the code has it. Nothing catches an exception of \<^verbatim>\<open>socketio.emit\<close>.
  When the emission to one subscriber raises, after the pass over the subscribers before
  it went through, \<^verbatim>\<open>notify\<close> raises that exception and the registry is unchanged.
  What has been sent is exactly the payloads of the subscribers before the failing one:
  each of them whose lookup gave a payload has received that payload, once; the failing
  subscriber and every later one have received nothing in this cycle.
\<close>

theorem notify_emit_failure:
  assumes split: "observers s = earlier @ (k, e) # later"
    and before: "fst (notify raises data (s\<lparr>observers := earlier\<rparr>)) = Inr ()"
    and present: "currency_data_for data (currency e) = Inr (Some d)"
    and fails: "raises (sid (observer e)) d"
    and sound: "sound_registry (observers s)"
  shows "\<exists>new. notify raises data s = (Inl EmitFailure, s\<lparr>trace := trace s @ new\<rparr>) \<and>
           new = payloads data (map snd earlier) \<and>
           (\<forall>kv\<in>set earlier.
              emits_to (fst kv) new =
                (case currency_data_for data (currency (snd kv)) of
                   Inr (Some p) \<Rightarrow> [Emit (fst kv) p]
                 | _ \<Rightarrow> [])) \<and>
           emits_to k new = [] \<and>
           (\<forall>kv\<in>set later. emits_to (fst kv) new = [])"
proof -
  let ?new = "payloads data (map snd earlier)"
  have run: "notify raises data s = (Inl EmitFailure, s\<lparr>trace := trace s @ ?new\<rparr>)"
    using notify_stops [OF split before, of EmitFailure] present fails by simp
  have pre: "sound_registry earlier"
    using sound split sound_registry_prefix [of earlier "(k, e) # later"] by simp
  have got: "\<forall>kv\<in>set earlier.
              emits_to (fst kv) ?new =
                (case currency_data_for data (currency (snd kv)) of
                   Inr (Some p) \<Rightarrow> [Emit (fst kv) p]
                 | _ \<Rightarrow> [])"
  proof
    fix kv assume "kv \<in> set earlier"
    then have "(fst kv, snd kv) \<in> set earlier" by simp
    then show "emits_to (fst kv) ?new =
                (case currency_data_for data (currency (snd kv)) of
                   Inr (Some p) \<Rightarrow> [Emit (fst kv) p]
                 | _ \<Rightarrow> [])"
      by (rule emits_to_payloads [OF pre])
  qed
  have sids: "\<forall>kv\<in>set earlier. sid (observer (snd kv)) = fst kv"
    using pre by (simp add: sound_registry_def list_all_iff)
  have dist: "distinct (map fst (observers s))"
    using sound by (simp add: sound_registry_def)
  have none: "k' \<notin> fst ` set earlier \<Longrightarrow> emits_to k' ?new = []" for k'
  proof -
    assume "k' \<notin> fst ` set earlier"
    then have "\<forall>e'\<in>set (map snd earlier). sid (observer e') \<noteq> k'"
      using sids by force
    then show "emits_to k' ?new = []" by (rule emits_to_payloads_absent)
  qed
  have "k \<notin> fst ` set earlier" using dist split by auto
  then have own: "emits_to k ?new = []" by (rule none)
  have "\<forall>kv\<in>set later. fst kv \<notin> fst ` set earlier" using dist split by auto
  then have rest: "\<forall>kv\<in>set later. emits_to (fst kv) ?new = []"
    using none by blast
  show ?thesis using run got own rest by blast
qed

theorem notify_emit_failure_witness:
  "observers usd_clients =
     [subscriber ''s1'' ''USD''] @ subscriber ''s2'' ''USD'' # [subscriber ''s3'' ''USD''] \<and>
   fst (notify s2_closed usd_rates (usd_clients\<lparr>observers := [subscriber ''s1'' ''USD'']\<rparr>)) = Inr () \<and>
   currency_data_for usd_rates (JStr ''USD'') = Inr (Some usd_payload) \<and>
   s2_closed ''s2'' usd_payload \<and>
   sound_registry (observers usd_clients) \<and>
   (\<exists>new. notify s2_closed usd_rates usd_clients =
            (Inl EmitFailure, usd_clients\<lparr>trace := trace usd_clients @ new\<rparr>) \<and>
          new = [Emit ''s1'' usd_payload] \<and>
          emits_to ''s1'' new = [Emit ''s1'' usd_payload] \<and>
          emits_to ''s2'' new = [] \<and>
          emits_to ''s3'' new = [])"
proof -
  let ?e = "\<lparr>observer = \<lparr>sid = ''s2''\<rparr>, currency = JStr ''USD''\<rparr>"
  have split: "observers usd_clients =
                 [subscriber ''s1'' ''USD''] @ (''s2'', ?e) # [subscriber ''s3'' ''USD'']"
    by (simp add: example_defs)
  have before: "fst (notify s2_closed usd_rates
                       (usd_clients\<lparr>observers := [subscriber ''s1'' ''USD'']\<rparr>)) = Inr ()"
    by (simp add: example_defs run_defs)
  have present: "currency_data_for usd_rates (currency ?e) = Inr (Some usd_payload)"
    by (simp add: example_defs run_defs)
  have fails: "s2_closed (sid (observer ?e)) usd_payload"
    by (simp add: s2_closed_def)
  have sound: "sound_registry (observers usd_clients)"
    by (simp add: example_defs sound_registry_def)
  obtain new where run: "notify s2_closed usd_rates usd_clients =
            (Inl EmitFailure, usd_clients\<lparr>trace := trace usd_clients @ new\<rparr>)"
    and new: "new = payloads usd_rates (map snd [subscriber ''s1'' ''USD''])"
    and got: "\<forall>kv\<in>set [subscriber ''s1'' ''USD''].
              emits_to (fst kv) new =
                (case currency_data_for usd_rates (currency (snd kv)) of
                   Inr (Some p) \<Rightarrow> [Emit (fst kv) p]
                 | _ \<Rightarrow> [])"
    and own: "emits_to ''s2'' new = []"
    and rest: "\<forall>kv\<in>set [subscriber ''s3'' ''USD'']. emits_to (fst kv) new = []"
    using notify_emit_failure [OF split before present fails sound] by blast
  have new': "new = [Emit ''s1'' usd_payload]"
    using new by (simp add: example_defs run_defs)
  have s1: "emits_to ''s1'' new = [Emit ''s1'' usd_payload]"
    using got by (simp add: example_defs run_defs)
  have s3: "emits_to ''s3'' new = []"
    using rest by (simp add: subscriber_def)
  have a: "observers usd_clients =
     [subscriber ''s1'' ''USD''] @ subscriber ''s2'' ''USD'' # [subscriber ''s3'' ''USD'']"
    by (simp add: example_defs)
  have c: "currency_data_for usd_rates (JStr ''USD'') = Inr (Some usd_payload)"
    using present by simp
  have f: "s2_closed ''s2'' usd_payload"
    by (simp add: s2_closed_def)
  show ?thesis using a before c f sound run new' s1 own s3 by blast
qed

theorem notify_emit_failure_counterexample:
  "currency_data_for usd_rates (JStr ''USD'') = Inr (Some usd_payload) \<and>
   notify s2_closed usd_rates usd_clients =
     (Inl EmitFailure, usd_clients\<lparr>trace := [Emit ''s1'' usd_payload]\<rparr>) \<and>
   emits_to ''s3'' (trace (snd (notify s2_closed usd_rates usd_clients))) = []"
  by (simp add: example_defs run_defs)

text \<open>
  Claim C7. In one call of \<^verbatim>\<open>notify\<close> a session receives at most one payload,
  whatever the document is and whether or not emissions raise.
\<close>

theorem notify_at_most_one:
  assumes "sound_registry (observers s)"
  shows "length (emits_to k (trace (snd (notify raises data s))))
           \<le> length (emits_to k (trace s)) + 1"
proof -
  obtain new where new: "snd (notify raises data s) = s\<lparr>trace := trace s @ new\<rparr>"
    and bound: "\<forall>k. length (emits_to k new)
                  \<le> length (filter (\<lambda>e. sid (observer e) = k) (map snd (observers s)))"
    using notify_frame by blast
  have "length (emits_to k new) \<le> 1"
    using bound sound_registry_at_most_one [OF assms, of k] le_trans by blast
  then show ?thesis by (simp add: new emits_to_append)
qed

theorem notify_at_most_one_witness:
  "sound_registry (observers three_clients) \<and>
   length (emits_to ''s1'' (trace (snd (notify always_sends usd_rates three_clients))))
     \<le> length (emits_to ''s1'' (trace three_clients)) + 1"
proof -
  have sound: "sound_registry (observers three_clients)"
    by (simp add: example_defs sound_registry_def)
  show ?thesis
    using sound notify_at_most_one [OF sound, of "''s1''" always_sends usd_rates] by simp
qed

text \<open>
  Claim C9. \<^verbatim>\<open>notify\<close> returns the registry it was given, for every document and
  also when it ends in an exception.
\<close>

theorem notify_keeps_registry:
  "observers (snd (notify raises data s)) = observers s"
proof -
  obtain new where "snd (notify raises data s) = s\<lparr>trace := trace s @ new\<rparr>"
    using notify_frame by blast
  then show ?thesis by simp
qed

theorem notify_keeps_registry_witness:
  "observers (snd (notify s2_closed usd_rates usd_clients)) = observers usd_clients"
  by (rule notify_keeps_registry)

text \<open>
  Claim C10. With an empty registry \<^verbatim>\<open>notify\<close> returns without an exception and
  without any effect, for every document. With at least one subscriber the document is
  subscripted with \<^verbatim>\<open>'Valute'\<close>: when that raises, \<^verbatim>\<open>notify\<close> raises the same
  exception.
\<close>

theorem notify_empty_registry:
  "(observers s = [] \<longrightarrow> notify raises data s = (Inr (), s)) \<and>
   (observers s \<noteq> [] \<longrightarrow> py_getitem data (JStr ''Valute'') = Inl err \<longrightarrow>
      notify raises data s = (Inl err, s))"
proof (intro conjI impI)
  assume "observers s = []"
  then show "notify raises data s = (Inr (), s)" by (simp add: notify_def)
next
  assume ne: "observers s \<noteq> []" and err: "py_getitem data (JStr ''Valute'') = Inl err"
  obtain a d where "observers s = a # d" using ne by (cases "observers s") auto
  then show "notify raises data s = (Inl err, s)"
    using err by (simp add: notify_def currency_data_for_def)
qed

theorem notify_empty_registry_witness:
  "observers initial = [] \<and>
   notify always_sends JNull initial = (Inr (), initial) \<and>
   observers three_clients \<noteq> [] \<and>
   py_getitem (JObj []) (JStr ''Valute'') = Inl (KeyError (JStr ''Valute'')) \<and>
   notify always_sends (JObj []) three_clients = (Inl (KeyError (JStr ''Valute'')), three_clients)"
proof -
  have a: "observers initial = []" by (simp add: initial_def)
  have b: "observers three_clients \<noteq> []" by (simp add: example_defs)
  have c: "py_getitem (JObj []) (JStr ''Valute'') = Inl (KeyError (JStr ''Valute''))" by simp
  have "notify always_sends JNull initial = (Inr (), initial)"
    using notify_empty_registry [of initial always_sends JNull] a by blast
  moreover have "notify always_sends (JObj []) three_clients =
                   (Inl (KeyError (JStr ''Valute'')), three_clients)"
    using notify_empty_registry [of three_clients always_sends "JObj []" "KeyError (JStr ''Valute'')"] b c
    by blast
  ultimately show ?thesis using a b c by blast
qed

section \<open>Properties of the poll loop\<close>

lemma get_currency_rates_failure:
  "get_currency_rates net = Inl err \<longleftrightarrow>
     net = Inl err \<or> (\<exists>resp. net = Inr resp \<and> body_json resp = None \<and> err = JSONDecodeError)"
  by (auto simp: get_currency_rates_def split: sum.splits option.splits)

lemma updater_body_ok:
  assumes "updater_body env s = (Inr u, s')"
  shows "observers s' = observers s \<and> naps (trace s') = naps (trace s) @ [10]"
proof -
  obtain data where data: "get_currency_rates (http env) = Inr data"
    using assms by (auto simp: updater_body_def split: sum.splits)
  obtain new where new: "snd (notify (emit_raises env) data s) = s\<lparr>trace := trace s @ new\<rparr>"
    and quiet: "\<forall>n. Sleep n \<notin> set new"
    using notify_frame by blast
  have "s' = s\<lparr>trace := trace s @ new @ [Sleep 10]\<rparr>"
    using assms data new
    by (cases "notify (emit_raises env) data s")
       (auto simp: updater_body_def sleep_def split: sum.splits)
  then show ?thesis by (simp add: naps_append naps_no_sleep [OF quiet])
qed

lemma updater_body_err:
  assumes "updater_body env s = (Inl err, s')"
  shows "observers s' = observers s \<and> naps (trace s') = naps (trace s)"
proof (cases "get_currency_rates (http env)")
  case (Inl e)
  then show ?thesis using assms by (simp add: updater_body_def)
next
  case (Inr data)
  obtain new where new: "snd (notify (emit_raises env) data s) = s\<lparr>trace := trace s @ new\<rparr>"
    and quiet: "\<forall>n. Sleep n \<notin> set new"
    using notify_frame by blast
  have "s' = s\<lparr>trace := trace s @ new\<rparr>"
    using assms Inr new
    by (cases "notify (emit_raises env) data s")
       (auto simp: updater_body_def sleep_def split: sum.splits)
  then show ?thesis by (simp add: naps_append naps_no_sleep [OF quiet])
qed

lemma loop_survives:
  "fst (currency_updater envs s) = Looping \<Longrightarrow>
   naps (trace (snd (currency_updater envs s))) = naps (trace s) @ replicate (length envs) 10"
proof (induction envs arbitrary: s)
  case Nil
  show ?case by simp
next
  case (Cons env envs)
  obtain r s1 where body: "updater_body env s = (r, s1)"
    by (cases "updater_body env s") auto
  show ?case
  proof (cases r)
    case (Inl err)
    then show ?thesis using Cons.prems body by simp
  next
    case (Inr u)
    have step: "currency_updater (env # envs) s = currency_updater envs s1"
      using body Inr by simp
    have "naps (trace (snd (currency_updater envs s1))) = naps (trace s1) @ replicate (length envs) 10"
      using Cons.IH [of s1] Cons.prems step by simp
    then show ?thesis
      using updater_body_ok [of env s u s1] body Inr
      by (simp add: step replicate_append_same)
  qed
qed

lemma loop_dies:
  "fst (currency_updater envs s) = Died err \<Longrightarrow>
   \<exists>n sn. n < length envs \<and> currency_updater (take n envs) s = (Looping, sn) \<and>
          updater_body (envs ! n) sn = (Inl err, snd (currency_updater envs s)) \<and>
          naps (trace (snd (currency_updater envs s))) = naps (trace s) @ replicate n 10"
proof (induction envs arbitrary: s)
  case Nil
  then show ?case by simp
next
  case (Cons env envs)
  obtain r s1 where body: "updater_body env s = (r, s1)"
    by (cases "updater_body env s") auto
  show ?case
  proof (cases r)
    case (Inl e)
    have "0 < length (env # envs) \<and> currency_updater (take 0 (env # envs)) s = (Looping, s) \<and>
          updater_body ((env # envs) ! 0) s = (Inl err, snd (currency_updater (env # envs) s)) \<and>
          naps (trace (snd (currency_updater (env # envs) s))) = naps (trace s) @ replicate 0 10"
      using Cons.prems body Inl updater_body_err [of env s e s1] by simp
    then show ?thesis by blast
  next
    case (Inr u)
    have step: "currency_updater (env # envs) s = currency_updater envs s1"
      using body Inr by simp
    obtain n sn where n: "n < length envs" "currency_updater (take n envs) s1 = (Looping, sn)"
        "updater_body (envs ! n) sn = (Inl err, snd (currency_updater envs s1))"
        "naps (trace (snd (currency_updater envs s1))) = naps (trace s1) @ replicate n 10"
      using Cons.IH [of s1] Cons.prems step by auto
    have "Suc n < length (env # envs) \<and>
          currency_updater (take (Suc n) (env # envs)) s = (Looping, sn) \<and>
          updater_body ((env # envs) ! Suc n) sn = (Inl err, snd (currency_updater (env # envs) s)) \<and>
          naps (trace (snd (currency_updater (env # envs) s))) = naps (trace s) @ replicate (Suc n) 10"
      using n updater_body_ok [of env s u s1] body Inr
      by (simp add: step replicate_append_same)
    then show ?thesis by blast
  qed
qed

lemma loop_no_subscribers:
  "observers s = [] \<Longrightarrow>
   list_all (\<lambda>env. \<exists>data. get_currency_rates (http env) = Inr data) envs \<Longrightarrow>
   currency_updater envs s = (Looping, s\<lparr>trace := trace s @ replicate (length envs) (Sleep 10)\<rparr>)"
proof (induction envs arbitrary: s)
  case Nil
  show ?case by simp
next
  case (Cons env envs)
  obtain data where data: "get_currency_rates (http env) = Inr data"
    using Cons.prems(2) by auto
  let ?s1 = "s\<lparr>trace := trace s @ [Sleep 10]\<rparr>"
  have body: "updater_body env s = (Inr (), ?s1)"
    using data Cons.prems(1) by (simp add: updater_body_def notify_def sleep_def)
  have "currency_updater envs ?s1 =
          (Looping, ?s1\<lparr>trace := trace ?s1 @ replicate (length envs) (Sleep 10)\<rparr>)"
    using Cons.IH [of ?s1] Cons.prems by simp
  then show ?case using body by (simp add: replicate_append_same)
qed

text \<open>The iterations after a surviving prefix start from the state the prefix left.\<close>

lemma currency_updater_append:
  "currency_updater xs s = (Looping, sn) \<Longrightarrow>
   currency_updater (xs @ ys) s = currency_updater ys sn"
proof (induction xs arbitrary: s)
  case Nil
  then show ?case by simp
next
  case (Cons env xs)
  obtain r s1 where body: "updater_body env s = (r, s1)"
    by (cases "updater_body env s") auto
  show ?case
  proof (cases r)
    case (Inl err)
    then show ?thesis using Cons.prems body by simp
  next
    case (Inr u)
    then have "currency_updater xs s1 = (Looping, sn)"
      using Cons.prems body by simp
    then have "currency_updater (xs @ ys) s1 = currency_updater ys sn"
      by (rule Cons.IH)
    then show ?thesis using body Inr by simp
  qed
qed

lemma loop_continues:
  assumes "currency_updater envs s = (Looping, sn)"
    and "get_currency_rates (http env) = Inr data"
    and "notify (emit_raises env) data sn = (Inr u, s')"
  shows "currency_updater (envs @ [env]) s = (Looping, s'\<lparr>trace := trace s' @ [Sleep 10]\<rparr>)"
proof -
  have "updater_body env sn = (Inr (), s'\<lparr>trace := trace s' @ [Sleep 10]\<rparr>)"
    using assms(2,3) by (simp add: updater_body_def sleep_def)
  then show ?thesis by (simp add: currency_updater_append [OF assms(1)])
qed

lemma loop_ends:
  assumes "currency_updater envs s = (Looping, sn)"
    and "get_currency_rates (http env) = Inl err \<and> s' = sn \<or>
         (\<exists>data. get_currency_rates (http env) = Inr data \<and>
                 notify (emit_raises env) data sn = (Inl err, s'))"
  shows "currency_updater (envs @ env # rest) s = (Died err, s') \<and>
         naps (trace s') = naps (trace s) @ replicate (length envs) 10"
proof -
  have body: "updater_body env sn = (Inl err, s')"
    using assms(2) by (auto simp: updater_body_def)
  have run: "currency_updater (envs @ env # rest) s = (Died err, s')"
    using body by (simp add: currency_updater_append [OF assms(1)])
  have "naps (trace sn) = naps (trace s) @ replicate (length envs) 10"
    using loop_survives [of envs s] assms(1) by simp
  then show ?thesis using run updater_body_err [OF body] by simp
qed

lemma updater_body_wrong_shape:
  assumes "http env = Inr resp" and "body_json resp = Some data"
    and "observers s = earlier @ (k, e) # later"
    and "fst (notify (emit_raises env) data (s\<lparr>observers := earlier\<rparr>)) = Inr ()"
    and "currency_data_for data (currency e) = Inl err"
  shows "updater_body env s = (Inl err, s\<lparr>trace := trace s @ payloads data (map snd earlier)\<rparr>)"
proof -
  have "notify (emit_raises env) data s =
          (Inl err, s\<lparr>trace := trace s @ payloads data (map snd earlier)\<rparr>)"
    using notify_stops [OF assms(3,4), of err] assms(5) by simp
  then show ?thesis
    using assms(1,2) by (simp add: updater_body_def get_currency_rates_def)
qed

text \<open>
  Claim C2, as the code has it. When \<^verbatim>\<open>requests.get\<close> raises, or the body of the
  response is not JSON, the cycle sends nothing and changes nothing, and the exception is
  not caught: it leaves the iteration and ends the loop, so no later iteration runs.
  These are the only failures of the fetch. Every response whose body is JSON, whatever
  its status, is a fetched document, and the iteration is the dispatch of it. When the
  document has the wrong shape, so that the lookup for one subscriber raises after the
  pass over the subscribers before it went through, those earlier subscribers have been
  served, the exception of the lookup leaves the iteration, and the loop ends.
\<close>

theorem fetch_failure_ends_loop:
  "((http env = Inl err \<or>
     (\<exists>resp. http env = Inr resp \<and> body_json resp = None \<and> err = JSONDecodeError)) \<longrightarrow>
      get_currency_rates (http env) = Inl err \<and>
      updater_body env s = (Inl err, s) \<and>
      currency_updater (env # envs) s = (Died err, s)) \<and>
   (\<forall>resp data. http env = Inr resp \<and> body_json resp = Some data \<longrightarrow>
      get_currency_rates (http env) = Inr data \<and>
      updater_body env s =
        (case notify (emit_raises env) data s of
           (Inl e, s') \<Rightarrow> (Inl e, s')
         | (Inr u, s') \<Rightarrow> sleep 10 s') \<and>
      (\<forall>earlier k e later lookup_err.
         observers s = earlier @ (k, e) # later \<and>
         fst (notify (emit_raises env) data (s\<lparr>observers := earlier\<rparr>)) = Inr () \<and>
         currency_data_for data (currency e) = Inl lookup_err \<longrightarrow>
           updater_body env s =
             (Inl lookup_err, s\<lparr>trace := trace s @ payloads data (map snd earlier)\<rparr>) \<and>
           currency_updater (env # envs) s =
             (Died lookup_err, s\<lparr>trace := trace s @ payloads data (map snd earlier)\<rparr>)))"
proof (intro conjI impI allI)
  assume "http env = Inl err \<or>
     (\<exists>resp. http env = Inr resp \<and> body_json resp = None \<and> err = JSONDecodeError)"
  then have f: "get_currency_rates (http env) = Inl err"
    by (simp add: get_currency_rates_failure)
  then show "get_currency_rates (http env) = Inl err" .
  show "updater_body env s = (Inl err, s)" using f by (simp add: updater_body_def)
  then show "currency_updater (env # envs) s = (Died err, s)" by simp
next
  fix resp data
  assume h: "http env = Inr resp \<and> body_json resp = Some data"
  then show f: "get_currency_rates (http env) = Inr data"
    by (simp add: get_currency_rates_def)
  show "updater_body env s =
        (case notify (emit_raises env) data s of
           (Inl e, s') \<Rightarrow> (Inl e, s')
         | (Inr u, s') \<Rightarrow> sleep 10 s')"
    using f by (simp add: updater_body_def)
next
  fix resp data earlier k e later lookup_err
  assume h: "http env = Inr resp \<and> body_json resp = Some data"
    and w: "observers s = earlier @ (k, e) # later \<and>
         fst (notify (emit_raises env) data (s\<lparr>observers := earlier\<rparr>)) = Inr () \<and>
         currency_data_for data (currency e) = Inl lookup_err"
  show body: "updater_body env s =
             (Inl lookup_err, s\<lparr>trace := trace s @ payloads data (map snd earlier)\<rparr>)"
    using h w updater_body_wrong_shape [of env resp data s earlier k e later lookup_err] by blast
  show "currency_updater (env # envs) s =
             (Died lookup_err, s\<lparr>trace := trace s @ payloads data (map snd earlier)\<rparr>)"
    using body by simp
qed

theorem fetch_failure_ends_loop_witness:
  "updater_body env_not_json three_clients = (Inl JSONDecodeError, three_clients) \<and>
   currency_updater [env_not_json, env_up] three_clients = (Died JSONDecodeError, three_clients) \<and>
   get_currency_rates (http env_500) = Inr usd_rates \<and>
   updater_body env_wrong_shape usd_eur_clients =
     (Inl (KeyError (JStr ''Value'')), usd_eur_clients\<lparr>trace := [Emit ''s1'' usd_payload]\<rparr>) \<and>
   currency_updater [env_wrong_shape, env_up] usd_eur_clients =
     (Died (KeyError (JStr ''Value'')), usd_eur_clients\<lparr>trace := [Emit ''s1'' usd_payload]\<rparr>)"
proof -
  have f: "http env_not_json = Inl JSONDecodeError \<or>
           (\<exists>resp. http env_not_json = Inr resp \<and> body_json resp = None \<and>
                   JSONDecodeError = JSONDecodeError)"
    by (simp add: env_not_json_def)
  have a: "updater_body env_not_json three_clients = (Inl JSONDecodeError, three_clients) \<and>
           currency_updater [env_not_json, env_up] three_clients =
             (Died JSONDecodeError, three_clients)"
    using fetch_failure_ends_loop [of env_not_json JSONDecodeError three_clients "[env_up]"] f
    by blast
  have g: "http env_500 = Inr \<lparr>status_code = 500, body_json = Some usd_rates\<rparr> \<and>
           body_json \<lparr>status_code = 500, body_json = Some usd_rates\<rparr> = Some usd_rates"
    by (simp add: env_500_def)
  have b: "get_currency_rates (http env_500) = Inr usd_rates"
    using fetch_failure_ends_loop [of env_500 err three_clients "[]"] g by blast
  have h: "http env_wrong_shape = Inr \<lparr>status_code = 200, body_json = Some eur_without_value\<rparr> \<and>
           body_json \<lparr>status_code = 200, body_json = Some eur_without_value\<rparr> =
             Some eur_without_value"
    by (simp add: env_wrong_shape_def)
  have w: "observers usd_eur_clients =
             [subscriber ''s1'' ''USD''] @ (''s2'', snd (subscriber ''s2'' ''EUR'')) # [] \<and>
           fst (notify (emit_raises env_wrong_shape) eur_without_value
                  (usd_eur_clients\<lparr>observers := [subscriber ''s1'' ''USD'']\<rparr>)) = Inr () \<and>
           currency_data_for eur_without_value (currency (snd (subscriber ''s2'' ''EUR''))) =
             Inl (KeyError (JStr ''Value''))"
    by (simp add: example_defs run_defs)
  have p: "payloads eur_without_value (map snd [subscriber ''s1'' ''USD'']) =
             [Emit ''s1'' usd_payload]"
    by (simp add: example_defs run_defs)
  have c: "updater_body env_wrong_shape usd_eur_clients =
             (Inl (KeyError (JStr ''Value'')),
              usd_eur_clients\<lparr>trace := trace usd_eur_clients @
                 payloads eur_without_value (map snd [subscriber ''s1'' ''USD''])\<rparr>) \<and>
           currency_updater [env_wrong_shape, env_up] usd_eur_clients =
             (Died (KeyError (JStr ''Value'')),
              usd_eur_clients\<lparr>trace := trace usd_eur_clients @
                 payloads eur_without_value (map snd [subscriber ''s1'' ''USD''])\<rparr>)"
    using fetch_failure_ends_loop [of env_wrong_shape err usd_eur_clients "[env_up]"] h w
    by blast
  have t: "trace usd_eur_clients = []" by (simp add: usd_eur_clients_def)
  have c': "updater_body env_wrong_shape usd_eur_clients =
             (Inl (KeyError (JStr ''Value'')),
              usd_eur_clients\<lparr>trace := [Emit ''s1'' usd_payload]\<rparr>) \<and>
           currency_updater [env_wrong_shape, env_up] usd_eur_clients =
             (Died (KeyError (JStr ''Value'')),
              usd_eur_clients\<lparr>trace := [Emit ''s1'' usd_payload]\<rparr>)"
    using c by (simp only: p t append_Nil)
  show ?thesis using a b c' by blast
qed

text \<open>
  Where the claim as stated fails. The source is unreachable in the first iteration: the
  exception ends the loop although the second fetch would have succeeded. A response with
  status 500 and a JSON body is used like any other: the status is not read. A table
  whose EUR entry has no \<^verbatim>\<open>Value\<close>: the subscriber before it has been served when the
  KeyError is raised.
\<close>

theorem fetch_failure_counterexample:
  "updater_body env_down three_clients = (Inl RequestException, three_clients) \<and>
   currency_updater [env_down, env_up] three_clients = (Died RequestException, three_clients) \<and>
   updater_body env_500 three_clients =
     (Inr (), three_clients\<lparr>trace := [Emit ''s1'' usd_payload, Emit ''s3'' usd_payload, Sleep 10]\<rparr>) \<and>
   updater_body env_wrong_shape usd_eur_clients =
     (Inl (KeyError (JStr ''Value'')), usd_eur_clients\<lparr>trace := [Emit ''s1'' usd_payload]\<rparr>)"
  by (simp add: example_defs updater_body_def get_currency_rates_def run_defs sleep_def)

text \<open>
  Claim C8, as the code has it. The loop re-arms only after an iteration that does not
  raise. As long as no iteration raises, every iteration ends with
  \<^verbatim>\<open>time.sleep(10)\<close>; after a surviving run, an iteration whose fetch and dispatch
  return is followed by the sleep and the loop goes on. An iteration whose fetch or
  dispatch raises ends the loop with that exception: the iterations before it have each
  slept, this one has not, and no later iteration runs; a loop that has ended has ended
  in this way. With no subscriber registered an iteration raises only when the fetch
  does, so the loop keeps running, sleeping 10 after each fetch, as long as the fetches
  succeed.
\<close>

theorem poll_loop:
  "(fst (currency_updater envs s) = Looping \<longrightarrow>
      naps (trace (snd (currency_updater envs s))) = naps (trace s) @ replicate (length envs) 10) \<and>
   (\<forall>err. fst (currency_updater envs s) = Died err \<longrightarrow>
      (\<exists>n sn. n < length envs \<and> currency_updater (take n envs) s = (Looping, sn) \<and>
          updater_body (envs ! n) sn = (Inl err, snd (currency_updater envs s)) \<and>
          naps (trace (snd (currency_updater envs s))) = naps (trace s) @ replicate n 10)) \<and>
   (\<forall>sn (env::cycle_env) data u s'.
      currency_updater envs s = (Looping, sn) \<and>
      get_currency_rates (http env) = Inr data \<and>
      notify (emit_raises env) data sn = (Inr u, s') \<longrightarrow>
        currency_updater (envs @ [env]) s = (Looping, s'\<lparr>trace := trace s' @ [Sleep 10]\<rparr>)) \<and>
   (\<forall>sn (env::cycle_env) err s' rest.
      currency_updater envs s = (Looping, sn) \<and>
      (get_currency_rates (http env) = Inl err \<and> s' = sn \<or>
       (\<exists>data. get_currency_rates (http env) = Inr data \<and>
               notify (emit_raises env) data sn = (Inl err, s'))) \<longrightarrow>
        currency_updater (envs @ env # rest) s = (Died err, s') \<and>
        naps (trace s') = naps (trace s) @ replicate (length envs) 10) \<and>
   (observers s = [] \<and>
    list_all (\<lambda>env. \<exists>data. get_currency_rates (http env) = Inr data) envs \<longrightarrow>
      currency_updater envs s =
        (Looping, s\<lparr>trace := trace s @ replicate (length envs) (Sleep 10)\<rparr>))"
proof (intro conjI)
  show "fst (currency_updater envs s) = Looping \<longrightarrow>
      naps (trace (snd (currency_updater envs s))) = naps (trace s) @ replicate (length envs) 10"
    using loop_survives [of envs s] by blast
  show "\<forall>err. fst (currency_updater envs s) = Died err \<longrightarrow>
      (\<exists>n sn. n < length envs \<and> currency_updater (take n envs) s = (Looping, sn) \<and>
          updater_body (envs ! n) sn = (Inl err, snd (currency_updater envs s)) \<and>
          naps (trace (snd (currency_updater envs s))) = naps (trace s) @ replicate n 10)"
    using loop_dies [of envs s] by blast
  show "\<forall>sn (env::cycle_env) data u s'.
      currency_updater envs s = (Looping, sn) \<and>
      get_currency_rates (http env) = Inr data \<and>
      notify (emit_raises env) data sn = (Inr u, s') \<longrightarrow>
        currency_updater (envs @ [env]) s = (Looping, s'\<lparr>trace := trace s' @ [Sleep 10]\<rparr>)"
    using loop_continues [of envs s] by blast
  show "\<forall>sn (env::cycle_env) err s' rest.
      currency_updater envs s = (Looping, sn) \<and>
      (get_currency_rates (http env) = Inl err \<and> s' = sn \<or>
       (\<exists>data. get_currency_rates (http env) = Inr data \<and>
               notify (emit_raises env) data sn = (Inl err, s'))) \<longrightarrow>
        currency_updater (envs @ env # rest) s = (Died err, s') \<and>
        naps (trace s') = naps (trace s) @ replicate (length envs) 10"
  proof (intro allI impI)
    fix sn and env :: cycle_env and err s' rest
    assume h: "currency_updater envs s = (Looping, sn) \<and>
      (get_currency_rates (http env) = Inl err \<and> s' = sn \<or>
       (\<exists>data. get_currency_rates (http env) = Inr data \<and>
               notify (emit_raises env) data sn = (Inl err, s')))"
    show "currency_updater (envs @ env # rest) s = (Died err, s') \<and>
        naps (trace s') = naps (trace s) @ replicate (length envs) 10"
      by (rule loop_ends [of envs s sn env err s' rest]) (use h in blast)+
  qed
  show "observers s = [] \<and>
    list_all (\<lambda>env. \<exists>data. get_currency_rates (http env) = Inr data) envs \<longrightarrow>
      currency_updater envs s =
        (Looping, s\<lparr>trace := trace s @ replicate (length envs) (Sleep 10)\<rparr>)"
    using loop_no_subscribers [of s envs] by blast
qed

theorem poll_loop_witness:
  "currency_updater [env_up, env_down, env_up] three_clients =
     (Died RequestException,
      three_clients\<lparr>trace := [Emit ''s1'' usd_payload, Emit ''s3'' usd_payload, Sleep 10]\<rparr>) \<and>
   currency_updater [env_s2_closed, env_up] usd_clients =
     (Died EmitFailure, usd_clients\<lparr>trace := [Emit ''s1'' usd_payload]\<rparr>) \<and>
   currency_updater [env_up, env_500] three_clients =
     (Looping,
      three_clients\<lparr>trace := [Emit ''s1'' usd_payload, Emit ''s3'' usd_payload, Sleep 10,
                              Emit ''s1'' usd_payload, Emit ''s3'' usd_payload, Sleep 10]\<rparr>) \<and>
   currency_updater [env_up, env_500] initial = (Looping, initial\<lparr>trace := [Sleep 10, Sleep 10]\<rparr>)"
proof -
  let ?s1 = "three_clients\<lparr>trace := [Emit ''s1'' usd_payload, Emit ''s3'' usd_payload, Sleep 10]\<rparr>"
  let ?s2 = "three_clients\<lparr>trace := [Emit ''s1'' usd_payload, Emit ''s3'' usd_payload, Sleep 10,
                              Emit ''s1'' usd_payload, Emit ''s3'' usd_payload]\<rparr>"
  have one: "currency_updater [env_up] three_clients = (Looping, ?s1)"
    by (simp add: example_defs updater_body_def get_currency_rates_def run_defs sleep_def)
  have down: "get_currency_rates (http env_down) = Inl RequestException"
    by (simp add: env_down_def get_currency_rates_def)
  have d1: "currency_updater ([env_up] @ env_down # [env_up]) three_clients =
              (Died RequestException, ?s1)"
    using poll_loop [of "[env_up]" three_clients] one down by blast
  have none: "currency_updater [] usd_clients = (Looping, usd_clients)" by simp
  have fetch: "get_currency_rates (http env_s2_closed) = Inr usd_rates"
    by (simp add: env_s2_closed_def get_currency_rates_def)
  have emit: "notify (emit_raises env_s2_closed) usd_rates usd_clients =
                (Inl EmitFailure, usd_clients\<lparr>trace := [Emit ''s1'' usd_payload]\<rparr>)"
    by (simp add: example_defs run_defs)
  have d2: "currency_updater ([] @ env_s2_closed # [env_up]) usd_clients =
              (Died EmitFailure, usd_clients\<lparr>trace := [Emit ''s1'' usd_payload]\<rparr>)"
    using poll_loop [of "[]" usd_clients] none fetch emit by blast
  have fetch5: "get_currency_rates (http env_500) = Inr usd_rates"
    by (simp add: env_500_def get_currency_rates_def)
  have again: "notify (emit_raises env_500) usd_rates ?s1 = (Inr (), ?s2)"
    by (simp add: example_defs run_defs)
  have "currency_updater ([env_up] @ [env_500]) three_clients =
          (Looping, ?s2\<lparr>trace := trace ?s2 @ [Sleep 10]\<rparr>)"
    using poll_loop [of "[env_up]" three_clients] one fetch5 again by blast
  then have l1: "currency_updater [env_up, env_500] three_clients =
     (Looping,
      three_clients\<lparr>trace := [Emit ''s1'' usd_payload, Emit ''s3'' usd_payload, Sleep 10,
                              Emit ''s1'' usd_payload, Emit ''s3'' usd_payload, Sleep 10]\<rparr>)"
    by simp
  have a: "observers initial = []" by (simp add: initial_def)
  have b: "list_all (\<lambda>env. \<exists>data. get_currency_rates (http env) = Inr data) [env_up, env_500]"
    by (simp add: example_defs get_currency_rates_def)
  have "currency_updater [env_up, env_500] initial =
          (Looping, initial\<lparr>trace := trace initial @ replicate (length [env_up, env_500]) (Sleep 10)\<rparr>)"
    using poll_loop [of "[env_up, env_500]" initial] a b by blast
  then have l2: "currency_updater [env_up, env_500] initial =
                   (Looping, initial\<lparr>trace := [Sleep 10, Sleep 10]\<rparr>)"
    by (simp add: initial_def numeral_2_eq_2)
  show ?thesis using d1 d2 l1 l2 by simp
qed

theorem poll_loop_counterexample:
  "currency_updater [env_down, env_up] initial = (Died RequestException, initial)"
  by (simp add: example_defs updater_body_def get_currency_rates_def)

end
